theory Spec2Isabelle
  imports Complex_Main
begin

section \<open>JavaScript numbers\<close>

text \<open>
  The curve library (\<^verbatim>\<open>CurveMath\<close> in \<^verbatim>\<open>src/src/math.js\<close>) computes with JavaScript
  numbers. A number is modelled as a finite value carrying an exact real, one of the two
  infinities, or \<^verbatim>\<open>NaN\<close>. Arithmetic on finite values is exact: rounding, overflow and the
  sign of zero are not modelled. The special values follow IEEE 754 as JavaScript does:
  \<^verbatim>\<open>0/0\<close> is \<^verbatim>\<open>NaN\<close>, \<^verbatim>\<open>NaN\<close> is absorbing, every comparison with \<^verbatim>\<open>NaN\<close> is false and
  \<^verbatim>\<open>NaN !== v\<close> is true for every \<^verbatim>\<open>v\<close>.
\<close>

datatype jsnum = Fin real | PInf | NInf | NaN

fun nneg :: "jsnum \<Rightarrow> jsnum" where
  "nneg (Fin a) = Fin (- a)"
| "nneg PInf = NInf"
| "nneg NInf = PInf"
| "nneg NaN = NaN"

fun nadd :: "jsnum \<Rightarrow> jsnum \<Rightarrow> jsnum" where
  "nadd (Fin a) (Fin b) = Fin (a + b)"
| "nadd NaN _ = NaN"
| "nadd _ NaN = NaN"
| "nadd PInf NInf = NaN"
| "nadd NInf PInf = NaN"
| "nadd PInf _ = PInf"
| "nadd _ PInf = PInf"
| "nadd NInf _ = NInf"
| "nadd _ NInf = NInf"

definition nsub :: "jsnum \<Rightarrow> jsnum \<Rightarrow> jsnum" where
  "nsub a b = nadd a (nneg b)"

fun nmul :: "jsnum \<Rightarrow> jsnum \<Rightarrow> jsnum" where
  "nmul (Fin a) (Fin b) = Fin (a * b)"
| "nmul NaN _ = NaN"
| "nmul _ NaN = NaN"
| "nmul (Fin a) PInf = (if a = 0 then NaN else if 0 < a then PInf else NInf)"
| "nmul (Fin a) NInf = (if a = 0 then NaN else if 0 < a then NInf else PInf)"
| "nmul PInf (Fin b) = (if b = 0 then NaN else if 0 < b then PInf else NInf)"
| "nmul NInf (Fin b) = (if b = 0 then NaN else if 0 < b then NInf else PInf)"
| "nmul PInf PInf = PInf"
| "nmul PInf NInf = NInf"
| "nmul NInf PInf = NInf"
| "nmul NInf NInf = PInf"

fun ndiv :: "jsnum \<Rightarrow> jsnum \<Rightarrow> jsnum" where
  "ndiv (Fin a) (Fin b) =
     (if b \<noteq> 0 then Fin (a / b)
      else if a = 0 then NaN else if 0 < a then PInf else NInf)"
| "ndiv NaN _ = NaN"
| "ndiv _ NaN = NaN"
| "ndiv (Fin a) PInf = Fin 0"
| "ndiv (Fin a) NInf = Fin 0"
| "ndiv PInf (Fin b) = (if 0 \<le> b then PInf else NInf)"
| "ndiv NInf (Fin b) = (if 0 \<le> b then NInf else PInf)"
| "ndiv _ _ = NaN"

text \<open>The comparisons \<^verbatim>\<open><=\<close> and \<^verbatim>\<open><\<close>, and the strict inequality \<^verbatim>\<open>!==\<close> of two numbers.\<close>

fun nle :: "jsnum \<Rightarrow> jsnum \<Rightarrow> bool" where
  "nle (Fin a) (Fin b) = (a \<le> b)"
| "nle NaN _ = False"
| "nle _ NaN = False"
| "nle NInf _ = True"
| "nle _ PInf = True"
| "nle _ _ = False"

fun nlt :: "jsnum \<Rightarrow> jsnum \<Rightarrow> bool" where
  "nlt (Fin a) (Fin b) = (a < b)"
| "nlt NaN _ = False"
| "nlt _ NaN = False"
| "nlt PInf _ = False"
| "nlt _ NInf = False"
| "nlt _ _ = True"

definition nneq :: "jsnum \<Rightarrow> jsnum \<Rightarrow> bool" where
  "nneq a b = (a = NaN \<or> b = NaN \<or> a \<noteq> b)"

text \<open>\<^verbatim>\<open>Math.min\<close> and \<^verbatim>\<open>Math.max\<close> of two numbers: \<^verbatim>\<open>NaN\<close> if either is.\<close>

definition math_min :: "jsnum \<Rightarrow> jsnum \<Rightarrow> jsnum" where
  "math_min a b = (if a = NaN \<or> b = NaN then NaN else if nle a b then a else b)"

definition math_max :: "jsnum \<Rightarrow> jsnum \<Rightarrow> jsnum" where
  "math_max a b = (if a = NaN \<or> b = NaN then NaN else if nle a b then b else a)"

text \<open>A number is falsy when it is zero or \<^verbatim>\<open>NaN\<close> (the test behind \<^verbatim>\<open>w || 1\<close>).\<close>

definition truthy :: "jsnum \<Rightarrow> bool" where
  "truthy a = (a \<noteq> Fin 0 \<and> a \<noteq> NaN)"

text \<open>
  An array read \<^verbatim>\<open>knots[i]\<close> past the end gives \<^verbatim>\<open>undefined\<close>, here \<open>None\<close>. In
  arithmetic, comparisons, \<^verbatim>\<open>Math.min\<close> and \<^verbatim>\<open>Math.max\<close> it converts to \<^verbatim>\<open>NaN\<close>; under
  \<^verbatim>\<open>!==\<close> it differs from every number and equals itself.
\<close>

definition knot_at :: "jsnum list \<Rightarrow> nat \<Rightarrow> jsnum option" where
  "knot_at knots i = (if i < length knots then Some (knots ! i) else None)"

fun to_num :: "jsnum option \<Rightarrow> jsnum" where
  "to_num None = NaN"
| "to_num (Some a) = a"

fun strict_neq :: "jsnum option \<Rightarrow> jsnum option \<Rightarrow> bool" where
  "strict_neq None None = False"
| "strict_neq (Some a) (Some b) = nneq a b"
| "strict_neq _ _ = True"

section \<open>Data model\<close>

text \<open>
  A curve point is \<^verbatim>\<open>{x, y}\<close>; a control point is \<^verbatim>\<open>{x, y, weight}\<close>. A control point
  whose \<^verbatim>\<open>weight\<close> field is missing behaves in both evaluators as one whose weight is
  \<^verbatim>\<open>NaN\<close>: it is falsy under \<^verbatim>\<open>||\<close> and turns every product into \<^verbatim>\<open>NaN\<close>.
\<close>

record point =
  px :: jsnum
  py :: jsnum

record cpoint = point +
  weight :: jsnum

section \<open>B\'ezier evaluator\<close>

text \<open>The homogeneous lift \<^verbatim>\<open>controlPoints.map(p => ({x: p.x * p.weight, ...}))\<close>.\<close>

definition homog :: "cpoint \<Rightarrow> cpoint" where
  "homog p = \<lparr>px = nmul (px p) (weight p), py = nmul (py p) (weight p), weight = weight p\<rparr>"

text \<open>The point pushed by the inner loop for the neighbours \<^verbatim>\<open>p1\<close>, \<^verbatim>\<open>p2\<close>.\<close>

definition lerp :: "jsnum \<Rightarrow> cpoint \<Rightarrow> cpoint \<Rightarrow> cpoint" where
  "lerp t p1 p2 =
     \<lparr>px = nadd (nmul (px p1) (nsub (Fin 1) t)) (nmul (px p2) t),
      py = nadd (nmul (py p1) (nsub (Fin 1) t)) (nmul (py p2) t),
      weight = nadd (nmul (weight p1) (nsub (Fin 1) t)) (nmul (weight p2) t)\<rparr>"

text \<open>The inner \<^verbatim>\<open>for\<close> loop: one pass over the neighbouring pairs.\<close>

definition reduce_step :: "jsnum \<Rightarrow> cpoint list \<Rightarrow> cpoint list" where
  "reduce_step t points =
     map (\<lambda>i. lerp t (points ! i) (points ! (i + 1))) [0..<length points - 1]"

text \<open>The outer \<^verbatim>\<open>while (points.length > 1)\<close> loop.\<close>

function reduce :: "jsnum \<Rightarrow> cpoint list \<Rightarrow> cpoint list" where
  "reduce t (p1 # p2 # ps) = reduce t (reduce_step t (p1 # p2 # ps))"
| "reduce t [p] = [p]"
| "reduce t [] = []"
  by pat_completeness auto
termination
  by (relation "measure (\<lambda>(t, ps). length ps)") (auto simp: reduce_step_def)

definition deCasteljauBezier :: "cpoint list \<Rightarrow> jsnum \<Rightarrow> point option" where
  "deCasteljauBezier controlPoints t =
     (if length controlPoints = 0 then None
      else if length controlPoints = 1
        then Some \<lparr>px = px (controlPoints ! 0), py = py (controlPoints ! 0)\<rparr>
      else
        let points = reduce t (map homog controlPoints);
            finalPoint = points ! 0
        in if nneq (weight finalPoint) (Fin 0)
           then Some \<lparr>px = ndiv (px finalPoint) (weight finalPoint),
                      py = ndiv (py finalPoint) (weight finalPoint)\<rparr>
           else Some \<lparr>px = px finalPoint, py = py finalPoint\<rparr>)"

text \<open>
  \<^verbatim>\<open>generateBezierCurve\<close>: \<^verbatim>\<open>steps\<close> is a sample count, a natural number. The parameter
  \<^verbatim>\<open>i / steps\<close> is a division of numbers, so \<^verbatim>\<open>0 / 0\<close> is \<^verbatim>\<open>NaN\<close>. A \<^verbatim>\<open>null\<close> point is
  not pushed.
\<close>

definition generateBezierCurve :: "cpoint list \<Rightarrow> nat \<Rightarrow> point list" where
  "generateBezierCurve controlPoints steps =
     (if length controlPoints < 2 then []
      else List.map_filter
             (\<lambda>i. deCasteljauBezier controlPoints (ndiv (Fin (real i)) (Fin (real steps))))
             [0..<steps + 1])"

section \<open>B-Spline evaluator\<close>

text \<open>
  \<^verbatim>\<open>basisFunction(i, k, t, knots)\<close>, the Cox--de Boor recursion. The callers pass
  \<^verbatim>\<open>k = degree + 1\<close>, and the recursion counts \<^verbatim>\<open>k\<close> down to the base case \<^verbatim>\<open>k === 1\<close>;
  the function is modelled for \<open>k \<ge> 1\<close>.
\<close>

fun basisFunction :: "nat \<Rightarrow> nat \<Rightarrow> jsnum \<Rightarrow> jsnum list \<Rightarrow> jsnum" where
  "basisFunction i (Suc 0) t knots =
     (if nle (to_num (knot_at knots i)) t \<and> nlt t (to_num (knot_at knots (i + 1)))
      then Fin 1 else Fin 0)"
| "basisFunction i (Suc (Suc k')) t knots =
     (let k = Suc (Suc k');
          left = (if strict_neq (knot_at knots (i + k - 1)) (knot_at knots i)
                  then nmul (ndiv (nsub t (to_num (knot_at knots i)))
                                  (nsub (to_num (knot_at knots (i + k - 1)))
                                        (to_num (knot_at knots i))))
                            (basisFunction i (k - 1) t knots)
                  else Fin 0);
          right = (if strict_neq (knot_at knots (i + k)) (knot_at knots (i + 1))
                   then nmul (ndiv (nsub (to_num (knot_at knots (i + k))) t)
                                   (nsub (to_num (knot_at knots (i + k)))
                                         (to_num (knot_at knots (i + 1)))))
                             (basisFunction (i + 1) (k - 1) t knots)
                   else Fin 0)
      in nadd left right)"

text \<open>
  \<^verbatim>\<open>generateUniformKnots(n, degree)\<close>. The middle loop runs for \<^verbatim>\<open>1 <= i < n - degree\<close>;
  when \<^verbatim>\<open>n < degree\<close> the bound is negative in the source and \<open>0\<close> here, and the loop
  body is not run in either.
\<close>

definition generateUniformKnots :: "nat \<Rightarrow> nat \<Rightarrow> jsnum list" where
  "generateUniformKnots n degree =
     (let internalKnots = n - degree
      in replicate (degree + 1) (Fin 0)
         @ map (\<lambda>i. ndiv (Fin (real i)) (Fin (real internalKnots))) [1..<internalKnots]
         @ replicate (degree + 1) (Fin 1))"

text \<open>
  The accumulation loop of \<^verbatim>\<open>bSplinePoint\<close>: the state is \<^verbatim>\<open>(x, y, weightSum)\<close>, and
  \<open>bspline_acc\<close> is one pass of the body for the index \<open>i\<close>.
\<close>

definition bspline_acc ::
  "cpoint list \<Rightarrow> jsnum \<Rightarrow> nat \<Rightarrow> jsnum list \<Rightarrow> nat \<Rightarrow> jsnum \<times> jsnum \<times> jsnum \<Rightarrow> jsnum \<times> jsnum \<times> jsnum" where
  "bspline_acc controlPoints t degree knots i s =
     (case s of (x, y, weightSum) \<Rightarrow>
        let basis = basisFunction i (degree + 1) t knots;
            w = (if truthy (weight (controlPoints ! i)) then weight (controlPoints ! i) else Fin 1);
            totalWeight = nmul basis w
        in (nadd x (nmul (px (controlPoints ! i)) totalWeight),
            nadd y (nmul (py (controlPoints ! i)) totalWeight),
            nadd weightSum totalWeight))"

text \<open>\<^verbatim>\<open>bSplinePoint\<close>; the optional \<^verbatim>\<open>knots\<close> argument is \<open>None\<close> for \<^verbatim>\<open>null\<close>.\<close>

definition bSplinePoint ::
  "cpoint list \<Rightarrow> jsnum \<Rightarrow> nat \<Rightarrow> jsnum list option \<Rightarrow> point option" where
  "bSplinePoint controlPoints t degree knots =
     (if length controlPoints = 0 then None
      else
        let n = length controlPoints
        in if n < degree + 1 then None
           else
             let knots' = (case knots of None \<Rightarrow> generateUniformKnots n degree | Some ks \<Rightarrow> ks);
                 lo = to_num (knot_at knots' degree);
                 hi = to_num (knot_at knots' n);
                 t' = math_max lo (math_min hi t)
             in case fold (bspline_acc controlPoints t' degree knots') [0..<n]
                       (Fin 0, Fin 0, Fin 0) of
                  (x, y, weightSum) \<Rightarrow>
                    if nneq weightSum (Fin 0)
                    then Some \<lparr>px = ndiv x weightSum, py = ndiv y weightSum\<rparr>
                    else Some \<lparr>px = x, py = y\<rparr>)"

definition generateBSplineCurve ::
  "cpoint list \<Rightarrow> nat \<Rightarrow> nat \<Rightarrow> jsnum list option \<Rightarrow> point list" where
  "generateBSplineCurve controlPoints degree steps knots =
     (if length controlPoints < degree + 1 then []
      else
        let n = length controlPoints;
            knots' = (case knots of None \<Rightarrow> generateUniformKnots n degree | Some ks \<Rightarrow> ks);
            lo = to_num (knot_at knots' degree);
            hi = to_num (knot_at knots' n)
        in List.map_filter
             (\<lambda>i. bSplinePoint controlPoints
                     (nadd lo (nmul (ndiv (Fin (real i)) (Fin (real steps))) (nsub hi lo)))
                     degree (Some knots'))
             [0..<steps + 1])"

section \<open>Finite inputs\<close>

text \<open>
  The control points the application stores have finite coordinates and weights. The
  theorems about curve values are stated for such points; \<open>cp a b w\<close> is the control
  point \<^verbatim>\<open>{x: a, y: b, weight: w}\<close> of three finite numbers.
\<close>

fun is_fin :: "jsnum \<Rightarrow> bool" where
  "is_fin (Fin a) = True"
| "is_fin _ = False"

definition finite_cp :: "cpoint \<Rightarrow> bool" where
  "finite_cp p = (is_fin (px p) \<and> is_fin (py p) \<and> is_fin (weight p))"

definition cp :: "real \<Rightarrow> real \<Rightarrow> real \<Rightarrow> cpoint" where
  "cp a b w = \<lparr>px = Fin a, py = Fin b, weight = Fin w\<rparr>"

definition nan_point :: cpoint where
  "nan_point = \<lparr>px = NaN, py = NaN, weight = NaN\<rparr>"


section \<open>Exact counterparts used in the proofs\<close>

text \<open>
  On a knot vector of finite numbers \<open>u 0, u 1, \<dots>\<close> and a finite parameter,
  \<^verbatim>\<open>basisFunction\<close> computes the finite number \<open>rbasis u i k t\<close>; \<open>rknot n degree j\<close> is the
  value of the \<open>j\<close>-th generated knot.
\<close>

fun rbasis :: "(nat \<Rightarrow> real) \<Rightarrow> nat \<Rightarrow> nat \<Rightarrow> real \<Rightarrow> real" where
  "rbasis u i 0 t = 0"
| "rbasis u i (Suc 0) t = (if u i \<le> t \<and> t < u (i + 1) then 1 else 0)"
| "rbasis u i (Suc (Suc k)) t =
     (if u (i + Suc k) \<noteq> u i
      then (t - u i) / (u (i + Suc k) - u i) * rbasis u i (Suc k) t else 0)
     + (if u (i + Suc (Suc k)) \<noteq> u (i + 1)
        then (u (i + Suc (Suc k)) - t) / (u (i + Suc (Suc k)) - u (i + 1))
             * rbasis u (i + 1) (Suc k) t
        else 0)"

definition rknot :: "nat \<Rightarrow> nat \<Rightarrow> nat \<Rightarrow> real" where
  "rknot n degree j =
     (if j \<le> degree then 0 else if j < n then real (j - degree) / real (n - degree) else 1)"

text \<open>The sum of a sequence of numbers, added from the left starting at 0.\<close>

definition nsum :: "jsnum list \<Rightarrow> jsnum" where
  "nsum xs = foldl nadd (Fin 0) xs"

text \<open>The substitution \<^verbatim>\<open>weight || 1\<close> applied to a control point.\<close>

definition weight_or_one :: "cpoint \<Rightarrow> cpoint" where
  "weight_or_one p = (if truthy (weight p) then p else p\<lparr>weight := Fin 1\<rparr>)"



section \<open>Basic facts\<close>

lemma is_fin_iff: "is_fin a = (\<exists>r. a = Fin r)"
  by (cases a) simp_all

lemma finite_cp_iff: "finite_cp p = (\<exists>a b w. p = cp a b w)"
proof
  assume "finite_cp p"
  then obtain a b w where "px p = Fin a" "py p = Fin b" "weight p = Fin w"
    by (auto simp: finite_cp_def is_fin_iff)
  then have "p = cp a b w" by (simp add: cp_def)
  then show "\<exists>a b w. p = cp a b w" by blast
next
  assume "\<exists>a b w. p = cp a b w"
  then show "finite_cp p" by (auto simp: finite_cp_def cp_def)
qed

lemma nmul_NaN_right [simp]: "nmul a NaN = NaN"
  by (cases a) simp_all

lemma nadd_NaN_right [simp]: "nadd a NaN = NaN"
  by (cases a) simp_all

lemma ndiv_NaN_right [simp]: "ndiv a NaN = NaN"
  by (cases a) simp_all

lemma length_reduce_step [simp]: "length (reduce_step t ps) = length ps - 1"
  by (simp add: reduce_step_def)

lemma nth_reduce_step:
  "i + 1 < length ps \<Longrightarrow> reduce_step t ps ! i = lerp t (ps ! i) (ps ! (i + 1))"
  by (simp add: reduce_step_def)

section \<open>The B\'ezier reduction at the parameter \<^verbatim>\<open>NaN\<close>\<close>

lemma lerp_NaN: "lerp NaN p1 p2 = nan_point"
  by (simp add: lerp_def nan_point_def nsub_def)

lemma reduce_step_NaN: "reduce_step NaN ps = replicate (length ps - 1) nan_point"
  by (rule nth_equalityI) (simp_all add: nth_reduce_step lerp_NaN)

lemma reduce_NaN_replicate: "reduce NaN (replicate (Suc k) nan_point) = [nan_point]"
proof (induction k)
  case 0
  show ?case by simp
next
  case (Suc k)
  have "reduce NaN (replicate (Suc (Suc k)) nan_point)
        = reduce NaN (reduce_step NaN (replicate (Suc (Suc k)) nan_point))"
    by simp
  also have "reduce_step NaN (replicate (Suc (Suc k)) nan_point) = replicate (Suc k) nan_point"
    by (simp only: reduce_step_NaN length_replicate diff_Suc_1)
  finally show ?case using Suc.IH by simp
qed

lemma reduce_NaN:
  assumes "2 \<le> length ps"
  shows "reduce NaN ps = [nan_point]"
proof -
  obtain p1 p2 qs where ps: "ps = p1 # p2 # qs"
    using assms by (cases ps; cases "tl ps") auto
  have "reduce NaN ps = reduce NaN (reduce_step NaN ps)" by (simp add: ps)
  also have "reduce_step NaN ps = replicate (Suc (length qs)) nan_point"
    by (simp add: reduce_step_NaN ps)
  finally show ?thesis by (simp only: reduce_NaN_replicate)
qed

lemma deCasteljauBezier_NaN:
  "2 \<le> length cps \<Longrightarrow> deCasteljauBezier cps NaN = Some \<lparr>px = NaN, py = NaN\<rparr>"
  by (auto simp: deCasteljauBezier_def reduce_NaN nan_point_def nneq_def)

section \<open>The B\'ezier reduction on finite points\<close>

lemma homog_cp: "homog (cp a b w) = cp (a * w) (b * w) w"
  by (simp add: homog_def cp_def)

lemma lerp_cp:
  "lerp (Fin t) (cp a b w) (cp a' b' w')
     = cp (a * (1 - t) + a' * t) (b * (1 - t) + b' * t) (w * (1 - t) + w' * t)"
  by (simp add: lerp_def cp_def nsub_def)


lemma lerp_zero: "finite_cp p1 \<Longrightarrow> finite_cp p2 \<Longrightarrow> lerp (Fin 0) p1 p2 = p1"
  by (auto simp: finite_cp_iff lerp_cp)

lemma lerp_one: "finite_cp p1 \<Longrightarrow> finite_cp p2 \<Longrightarrow> lerp (Fin 1) p1 p2 = p2"
  by (auto simp: finite_cp_iff lerp_cp)

lemma reduce_step_zero:
  assumes "\<forall>p\<in>set ps. finite_cp p"
  shows "reduce_step (Fin 0) ps = butlast ps"
proof (rule nth_equalityI)
  show "length (reduce_step (Fin 0) ps) = length (butlast ps)" by simp
next
  fix i assume "i < length (reduce_step (Fin 0) ps)"
  then have i: "i + 1 < length ps" by simp
  then have "finite_cp (ps ! i)" "finite_cp (ps ! (i + 1))" using assms by simp_all
  then show "reduce_step (Fin 0) ps ! i = butlast ps ! i"
    using i by (simp add: nth_reduce_step lerp_zero nth_butlast)
qed

lemma reduce_step_one:
  assumes "\<forall>p\<in>set ps. finite_cp p"
  shows "reduce_step (Fin 1) ps = tl ps"
proof (rule nth_equalityI)
  show "length (reduce_step (Fin 1) ps) = length (tl ps)" by simp
next
  fix i assume "i < length (reduce_step (Fin 1) ps)"
  then have i: "i + 1 < length ps" by simp
  then have "finite_cp (ps ! i)" "finite_cp (ps ! (i + 1))" using assms by simp_all
  then show "reduce_step (Fin 1) ps ! i = tl ps ! i"
    using i by (simp add: nth_reduce_step lerp_one nth_tl)
qed

lemma reduce_zero:
  "\<forall>p\<in>set ps. finite_cp p \<Longrightarrow> ps \<noteq> [] \<Longrightarrow> reduce (Fin 0) ps = [hd ps]"
proof (induction "length ps" arbitrary: ps)
  case 0
  then show ?case by simp
next
  case (Suc n)
  show ?case
  proof (cases ps)
    case Nil
    with Suc.prems show ?thesis by simp
  next
    case (Cons p1 qs)
    show ?thesis
    proof (cases qs)
      case Nil
      with Cons show ?thesis by simp
    next
      case (Cons p2 rs)
      have ps: "ps = p1 # p2 # rs" using \<open>ps = p1 # qs\<close> Cons by simp
      have step: "reduce_step (Fin 0) ps = butlast ps"
        using Suc.prems(1) by (rule reduce_step_zero)
      have "reduce (Fin 0) ps = reduce (Fin 0) (butlast ps)"
        using step by (simp add: ps)
      also have "\<dots> = [hd (butlast ps)]"
      proof (rule Suc.hyps(1))
        show "n = length (butlast ps)" using Suc.hyps(2) by simp
        show "\<forall>p\<in>set (butlast ps). finite_cp p"
          using Suc.prems(1) by (auto dest: in_set_butlastD)
        show "butlast ps \<noteq> []" by (simp add: ps)
      qed
      finally show ?thesis by (simp add: ps)
    qed
  qed
qed

lemma reduce_one:
  "\<forall>p\<in>set ps. finite_cp p \<Longrightarrow> ps \<noteq> [] \<Longrightarrow> reduce (Fin 1) ps = [last ps]"
proof (induction "length ps" arbitrary: ps)
  case 0
  then show ?case by simp
next
  case (Suc n)
  show ?case
  proof (cases ps)
    case Nil
    with Suc.prems show ?thesis by simp
  next
    case (Cons p1 qs)
    show ?thesis
    proof (cases qs)
      case Nil
      with Cons show ?thesis by simp
    next
      case (Cons p2 rs)
      have ps: "ps = p1 # p2 # rs" using \<open>ps = p1 # qs\<close> Cons by simp
      have step: "reduce_step (Fin 1) ps = tl ps"
        using Suc.prems(1) by (rule reduce_step_one)
      have "reduce (Fin 1) ps = reduce (Fin 1) (tl ps)"
        using step by (simp add: ps)
      also have "\<dots> = [last (tl ps)]"
      proof (rule Suc.hyps(1))
        show "n = length (tl ps)" using Suc.hyps(2) by simp
        show "\<forall>p\<in>set (tl ps). finite_cp p"
          using Suc.prems(1) by (auto simp: ps)
        show "tl ps \<noteq> []" by (simp add: ps)
      qed
      finally show ?thesis by (simp add: ps)
    qed
  qed
qed

lemma homog_unit_weight: "finite_cp p \<Longrightarrow> weight p = Fin 1 \<Longrightarrow> homog p = p"
  by (auto simp: finite_cp_iff homog_cp) (simp add: cp_def)

lemma ndiv_one: "is_fin a \<Longrightarrow> ndiv a (Fin 1) = a"
  by (auto simp: is_fin_iff)

section \<open>The generated knot vector\<close>

lemma length_generateUniformKnots:
  "degree + 1 \<le> n \<Longrightarrow> length (generateUniformKnots n degree) = n + degree + 1"
  by (simp add: generateUniformKnots_def Let_def)

lemma generateUniformKnots_finite:
  assumes "degree + 1 \<le> n"
  shows "generateUniformKnots n degree
           = replicate (degree + 1) (Fin 0)
             @ map (\<lambda>i. Fin (real i / real (n - degree))) [1..<n - degree]
             @ replicate (degree + 1) (Fin 1)"
proof -
  have "real (n - degree) \<noteq> 0" using assms by simp
  then show ?thesis by (simp add: generateUniformKnots_def Let_def)
qed

lemma nth_replicate_map_replicate:
  assumes "j < a + (m - 1) + b"
  shows "(replicate a x @ map f [1..<m] @ replicate b z) ! j
           = (if j < a then x else if j - a < m - 1 then f (1 + (j - a)) else z)"
  using assms by (auto simp: nth_append)

lemma nth_generateUniformKnots:
  assumes "degree + 1 \<le> n" and "j < n + degree + 1"
  shows "generateUniformKnots n degree ! j = Fin (rknot n degree j)"
proof -
  have "j < (degree + 1) + (n - degree - 1) + (degree + 1)" using assms by linarith
  then have "generateUniformKnots n degree ! j
      = (if j < degree + 1 then Fin 0
         else if j - (degree + 1) < n - degree - 1
           then Fin (real (1 + (j - (degree + 1))) / real (n - degree))
         else Fin 1)"
    by (simp only: generateUniformKnots_finite [OF assms(1)] nth_replicate_map_replicate)
  moreover have "1 + (j - (degree + 1)) = j - degree" if "\<not> j < degree + 1"
    using that by linarith
  moreover have "j - (degree + 1) < n - degree - 1 \<longleftrightarrow> j < n" if "\<not> j < degree + 1"
    using that assms(1) by linarith
  ultimately show ?thesis by (auto simp: rknot_def)
qed

lemma rknot_mono:
  assumes "degree + 1 \<le> n" and "i \<le> j"
  shows "rknot n degree i \<le> rknot n degree j"
proof -
  have pos: "0 < real (n - degree)" using assms(1) by simp
  have le1: "real (k - degree) / real (n - degree) \<le> 1" if "k < n" for k
    using that pos by (simp add: divide_le_eq_1)
  show ?thesis using assms(2) pos le1
    by (auto simp: rknot_def divide_right_mono)
qed

lemma rknot_ends:
  "rknot n degree degree = 0" "n \<le> j \<Longrightarrow> degree + 1 \<le> n \<Longrightarrow> rknot n degree j = 1"
  by (simp_all add: rknot_def)

section \<open>The basis functions on finite knots\<close>

lemma basisFunction_finite:
  assumes "\<forall>j<length knots. knots ! j = Fin (u j)"
  shows "1 \<le> k \<Longrightarrow> i + k < length knots \<Longrightarrow>
         basisFunction i k (Fin t) knots = Fin (rbasis u i k t)"
proof (induction k arbitrary: i)
  case 0
  then show ?case by simp
next
  case (Suc k)
  show ?case
  proof (cases k)
    case 0
    then show ?thesis using Suc.prems assms by (simp add: knot_at_def)
  next
    case (Suc k')
    have idx: "i < length knots" "i + 1 < length knots" "i + k < length knots"
      "i + Suc k < length knots"
      using Suc.prems by simp_all
    have kn: "knot_at knots i = Some (Fin (u i))"
      "knot_at knots (i + 1) = Some (Fin (u (i + 1)))"
      "knot_at knots (i + k) = Some (Fin (u (i + k)))"
      "knot_at knots (i + Suc k) = Some (Fin (u (i + Suc k)))"
      using idx assms by (simp_all add: knot_at_def)
    have l: "basisFunction i k (Fin t) knots = Fin (rbasis u i k t)"
      using Suc.IH [of i] idx Suc by simp
    have r: "basisFunction (i + 1) k (Fin t) knots = Fin (rbasis u (i + 1) k t)"
      using Suc.IH [of "i + 1"] idx Suc by simp
    have "basisFunction i (Suc (Suc k')) (Fin t) knots = Fin (rbasis u i (Suc (Suc k')) t)"
      using kn l r unfolding Suc
      by (simp add: Let_def nneq_def nsub_def)
    then show ?thesis by (simp only: Suc)
  qed
qed

section \<open>Support, sign and partition of unity of the exact basis functions\<close>

lemma rbasis_support:
  assumes "mono u"
  shows "0 \<le> rbasis u i k t \<and> (rbasis u i k t \<noteq> 0 \<longrightarrow> u i \<le> t \<and> t < u (i + k))"
proof (induction k arbitrary: i)
  case 0
  show ?case by simp
next
  case (Suc k)
  show ?case
  proof (cases k)
    case 0
    then show ?thesis by simp
  next
    case (Suc k')
    define N1 where "N1 = rbasis u i k t"
    define N2 where "N2 = rbasis u (i + 1) k t"
    define L where "L = (if u (i + k) \<noteq> u i then (t - u i) / (u (i + k) - u i) * N1 else 0)"
    define R where "R = (if u (i + Suc k) \<noteq> u (i + 1)
                         then (u (i + Suc k) - t) / (u (i + Suc k) - u (i + 1)) * N2 else 0)"
    have n1: "0 \<le> N1" "N1 \<noteq> 0 \<Longrightarrow> u i \<le> t \<and> t < u (i + k)"
      using Suc.IH [of i] by (simp_all add: N1_def)
    have n2: "0 \<le> N2" "N2 \<noteq> 0 \<Longrightarrow> u (i + 1) \<le> t \<and> t < u (i + Suc k)"
      using Suc.IH [of "i + 1"] by (simp_all add: N2_def)
    have m1: "u i \<le> u (i + k)" "u (i + k) \<le> u (i + Suc k)" "u i \<le> u (i + 1)"
      "u (i + 1) \<le> u (i + Suc k)"
      using assms by (simp_all add: monoD)
    have L0: "0 \<le> L"
    proof (cases "N1 = 0")
      case True
      then show ?thesis by (simp add: L_def)
    next
      case False
      then have "0 \<le> t - u i" using n1(2) by simp
      moreover have "0 \<le> u (i + k) - u i" using m1 by simp
      ultimately show ?thesis using n1(1) by (simp add: L_def)
    qed
    have R0: "0 \<le> R"
    proof (cases "N2 = 0")
      case True
      then show ?thesis by (simp add: R_def)
    next
      case False
      then have "0 \<le> u (i + Suc k) - t" using n2(2) by simp
      moreover have "0 \<le> u (i + Suc k) - u (i + 1)" using m1 by simp
      ultimately show ?thesis using n2(1) by (simp add: R_def)
    qed
    have Ls: "u i \<le> t \<and> t < u (i + Suc k)" if "L \<noteq> 0"
    proof -
      have "N1 \<noteq> 0" using that by (auto simp: L_def split: if_splits)
      then show ?thesis using n1(2) m1 by linarith
    qed
    have Rs: "u i \<le> t \<and> t < u (i + Suc k)" if "R \<noteq> 0"
    proof -
      have "N2 \<noteq> 0" using that by (auto simp: R_def split: if_splits)
      then show ?thesis using n2(2) m1 by linarith
    qed
    have eq: "rbasis u i (Suc k) t = L + R"
      by (simp add: Suc L_def R_def N1_def N2_def)
    have "L + R \<noteq> 0 \<longrightarrow> u i \<le> t \<and> t < u (i + Suc k)"
      using Ls Rs by (cases "L = 0") auto
    then show ?thesis using L0 R0 by (simp only: eq) simp
  qed
qed


lemma rbasis_zero_left: "mono u \<Longrightarrow> t < u i \<Longrightarrow> rbasis u i k t = 0"
  using rbasis_support [of u i k t] by force

lemma rbasis_zero_right: "mono u \<Longrightarrow> u (i + k) \<le> t \<Longrightarrow> rbasis u i k t = 0"
  using rbasis_support [of u i k t] by force

lemma rbasis_zero_empty: "mono u \<Longrightarrow> u (i + k) = u i \<Longrightarrow> rbasis u i k t = 0"
  using rbasis_support [of u i k t] by force

lemma rbasis_one_sum:
  assumes "mono u"
  shows "a < b \<Longrightarrow> u a \<le> t \<Longrightarrow> t < u b \<Longrightarrow> (\<Sum>i = a..<b. rbasis u i (Suc 0) t) = 1"
proof (induction b)
  case 0
  then show ?case by simp
next
  case (Suc b)
  have ab: "a \<le> b" using Suc.prems(1) by simp
  show ?case
  proof (cases "t < u b")
    case True
    then have "a \<noteq> b" using Suc.prems(2) by auto
    then have "(\<Sum>i = a..<b. rbasis u i (Suc 0) t) = 1"
      using Suc.IH ab Suc.prems(2) True by simp
    then show ?thesis using ab True by simp
  next
    case False
    have "rbasis u i (Suc 0) t = 0" if "i \<in> {a..<b}" for i
    proof -
      have "u (i + 1) \<le> u b" using that assms by (simp add: monoD)
      then show ?thesis using False by simp
    qed
    then have "(\<Sum>i = a..<b. rbasis u i (Suc 0) t) = 0" by simp
    then show ?thesis using ab False Suc.prems(3) by simp
  qed
qed

lemma cox_de_boor_weights:
  fixes x y t c :: real
  assumes "y \<noteq> x"
  shows "(t - x) / (y - x) * c + (y - t) / (y - x) * c = c"
proof -
  have "(t - x) / (y - x) * c + (y - t) / (y - x) * c = ((t - x) + (y - t)) / (y - x) * c"
    by (simp only: add_divide_distrib distrib_right)
  also have "\<dots> = (y - x) / (y - x) * c" by simp
  also have "\<dots> = c" using assms by simp
  finally show ?thesis .
qed

lemma rbasis_partition:
  assumes "mono u" and "d < n" and "u d \<le> t" and "t < u n"
  shows "a + j = d \<Longrightarrow> (\<Sum>i = a..<n. rbasis u i (Suc j) t) = 1"
proof (induction j arbitrary: a)
  case 0
  then show ?case using rbasis_one_sum [OF assms(1), of d n t] assms by simp
next
  case (Suc j)
  define N where "N i = rbasis u i (Suc j) t" for i
  define f where "f i = (if u (i + Suc j) \<noteq> u i
                         then (t - u i) / (u (i + Suc j) - u i) * N i else 0)" for i
  define g where "g i = (if u (i + Suc j) \<noteq> u i
                         then (u (i + Suc j) - t) / (u (i + Suc j) - u i) * N i else 0)" for i
  have an: "a < n" using Suc.prems assms(2) by simp
  have step: "rbasis u i (Suc (Suc j)) t = f i + g (Suc i)" for i
    by (simp add: f_def g_def N_def)
  have fg: "f i + g i = N i" for i
  proof (cases "u (i + Suc j) = u i")
    case True
    then have "N i = 0" unfolding N_def using assms(1) by (rule rbasis_zero_empty [rotated])
    then show ?thesis using True by (simp add: f_def g_def)
  next
    case False
    have "f i + g i = (t - u i) / (u (i + Suc j) - u i) * N i
                      + (u (i + Suc j) - t) / (u (i + Suc j) - u i) * N i"
      using False by (simp add: f_def g_def)
    also have "\<dots> = N i" using False by (rule cox_de_boor_weights)
    finally show ?thesis .
  qed
  have fa: "f a = 0"
  proof -
    have "u (a + Suc j) \<le> t" using Suc.prems assms(3) by simp
    then have "N a = 0" unfolding N_def using assms(1) by (rule rbasis_zero_right [rotated])
    then show ?thesis by (simp add: f_def)
  qed
  have gn: "g n = 0"
  proof -
    have "N n = 0" unfolding N_def using assms(1) assms(4) by (rule rbasis_zero_left)
    then show ?thesis by (simp add: g_def)
  qed
  have "(\<Sum>i = a..<n. rbasis u i (Suc (Suc j)) t)
          = (\<Sum>i = a..<n. f i) + (\<Sum>i = a..<n. g (Suc i))"
    by (simp only: step sum.distrib)
  also have "(\<Sum>i = a..<n. g (Suc i)) = (\<Sum>i = Suc a..<Suc n. g i)"
    by (simp only: sum.shift_bounds_Suc_ivl)
  also have "\<dots> = (\<Sum>i = Suc a..<n. g i) + g n"
    using an by simp
  also have "(\<Sum>i = a..<n. f i) = f a + (\<Sum>i = Suc a..<n. f i)"
    using an by (simp add: sum.atLeast_Suc_lessThan)
  finally have "(\<Sum>i = a..<n. rbasis u i (Suc (Suc j)) t)
                  = (\<Sum>i = Suc a..<n. f i + g i)"
    by (simp add: fa gn sum.distrib)
  also have "\<dots> = (\<Sum>i = Suc a..<n. rbasis u i (Suc j) t)"
    by (simp only: fg N_def)
  also have "\<dots> = 1" using Suc.IH [of "Suc a"] Suc.prems by simp
  finally show ?case .
qed

section \<open>The basis functions on the generated knot vector\<close>

lemma mono_rknot: "degree + 1 \<le> n \<Longrightarrow> mono (rknot n degree)"
  by (rule monoI) (rule rknot_mono)

lemma generated_knots_rknot:
  assumes "degree + 1 \<le> n"
  shows "\<forall>j<length (generateUniformKnots n degree).
           generateUniformKnots n degree ! j = Fin (rknot n degree j)"
  using assms by (simp add: length_generateUniformKnots nth_generateUniformKnots)

lemma basisFunction_generated:
  assumes "degree + 1 \<le> n" and "i < n"
  shows "basisFunction i (degree + 1) (Fin t) (generateUniformKnots n degree)
           = Fin (rbasis (rknot n degree) i (degree + 1) t)"
proof (rule basisFunction_finite [OF generated_knots_rknot [OF assms(1)]])
  show "1 \<le> degree + 1" by simp
  show "i + (degree + 1) < length (generateUniformKnots n degree)"
    using assms by (simp add: length_generateUniformKnots)
qed

lemma knot_at_generated:
  assumes "degree + 1 \<le> n"
  shows "knot_at (generateUniformKnots n degree) degree = Some (Fin 0)"
    and "knot_at (generateUniformKnots n degree) n = Some (Fin 1)"
  using assms
  by (simp_all add: knot_at_def length_generateUniformKnots nth_generateUniformKnots rknot_def)

lemma foldl_nadd_Fin: "foldl nadd (Fin a) (map (\<lambda>i. Fin (f i)) xs) = Fin (a + sum_list (map f xs))"
  by (induction xs arbitrary: a) (simp_all add: add.assoc)

lemma nsum_Fin: "nsum (map (\<lambda>i. Fin (f i)) [a..<b]) = Fin (sum f {a..<b})"
  by (simp add: nsum_def foldl_nadd_Fin interv_sum_list_conv_sum_set_nat)

lemma basisFunction_last_knot:
  assumes "degree + 1 \<le> n" and "i < n"
  shows "basisFunction i (degree + 1) (Fin 1) (generateUniformKnots n degree) = Fin 0"
proof -
  have "rknot n degree (i + (degree + 1)) \<le> 1"
    using assms by (simp add: rknot_def)
  then have "rbasis (rknot n degree) i (degree + 1) 1 = 0"
    using mono_rknot [OF assms(1)] by (rule rbasis_zero_right [rotated])
  then show ?thesis by (simp only: basisFunction_generated [OF assms])
qed

section \<open>The accumulation loop of \<^verbatim>\<open>bSplinePoint\<close>\<close>

lemma bSplinePoint_not_None:
  "degree + 1 \<le> length controlPoints \<Longrightarrow> bSplinePoint controlPoints t degree knots \<noteq> None"
  by (auto simp: bSplinePoint_def Let_def split: prod.splits)

lemma bspline_acc_zero_basis:
  assumes "finite_cp (controlPoints ! i)"
    and "basisFunction i (degree + 1) t knots = Fin 0"
  shows "bspline_acc controlPoints t degree knots i (Fin x, Fin y, Fin w) = (Fin x, Fin y, Fin w)"
proof -
  obtain a b v where p: "controlPoints ! i = cp a b v"
    using assms(1) by (auto simp: finite_cp_iff)
  show ?thesis
    by (simp only: bspline_acc_def assms(2) p) (simp add: cp_def Let_def)
qed

lemma fold_bspline_acc_zero_basis:
  assumes "\<forall>i\<in>set js. finite_cp (controlPoints ! i)
                       \<and> basisFunction i (degree + 1) t knots = Fin 0"
  shows "fold (bspline_acc controlPoints t degree knots) js (Fin x, Fin y, Fin w)
           = (Fin x, Fin y, Fin w)"
  using assms by (induction js) (simp_all add: bspline_acc_zero_basis)

lemma bSplinePoint_upper_boundary:
  assumes "degree + 1 \<le> length controlPoints"
    and "\<forall>p\<in>set controlPoints. finite_cp p"
  shows "bSplinePoint controlPoints (Fin 1) degree
           (Some (generateUniformKnots (length controlPoints) degree))
         = Some \<lparr>px = Fin 0, py = Fin 0\<rparr>"
proof -
  let ?n = "length controlPoints"
  let ?ks = "generateUniformKnots ?n degree"
  have len: "?n \<noteq> 0" "\<not> ?n < degree + 1" using assms(1) by linarith+
  have t': "math_max (to_num (knot_at ?ks degree)) (math_min (to_num (knot_at ?ks ?n)) (Fin 1))
              = Fin 1"
    by (simp add: knot_at_generated [OF assms(1)] math_max_def math_min_def)
  have "\<forall>i\<in>set [0..<?n]. finite_cp (controlPoints ! i)
                            \<and> basisFunction i (degree + 1) (Fin 1) ?ks = Fin 0"
    using assms(2) basisFunction_last_knot [OF assms(1)] by simp
  then have acc: "fold (bspline_acc controlPoints (Fin 1) degree ?ks) [0..<?n]
                    (Fin 0, Fin 0, Fin 0) = (Fin 0, Fin 0, Fin 0)"
    by (rule fold_bspline_acc_zero_basis)
  show ?thesis
    unfolding bSplinePoint_def Let_def option.case t' acc using len
    by (simp add: nneq_def)
qed

lemma map_filter_all_Some:
  "\<forall>x\<in>set xs. f x \<noteq> None \<Longrightarrow> List.map_filter f xs = map (\<lambda>x. the (f x)) xs"
  by (induction xs) (auto split: option.splits)

section \<open>Zero weights\<close>

lemma bspline_acc_weight_or_one:
  assumes "i < length controlPoints"
  shows "bspline_acc (map weight_or_one controlPoints) t degree knots i s
           = bspline_acc controlPoints t degree knots i s"
  using assms by (simp add: bspline_acc_def weight_or_one_def truthy_def)

lemma fold_bspline_acc_weight_or_one:
  assumes "\<forall>i\<in>set js. i < length controlPoints"
  shows "fold (bspline_acc (map weight_or_one controlPoints) t degree knots) js s
           = fold (bspline_acc controlPoints t degree knots) js s"
  using assms by (induction js arbitrary: s) (simp_all add: bspline_acc_weight_or_one)

lemma bSplinePoint_weight_or_one:
  "bSplinePoint (map weight_or_one controlPoints) t degree knots
     = bSplinePoint controlPoints t degree knots"
  by (simp add: bSplinePoint_def Let_def fold_bspline_acc_weight_or_one)

lemma homog_zero_weight:
  "is_fin (px p) \<Longrightarrow> is_fin (py p) \<Longrightarrow> weight p = Fin 0 \<Longrightarrow> homog p = cp 0 0 0"
  by (auto simp: is_fin_iff homog_def cp_def)

lemma deCasteljauBezier_zero_weight:
  assumes "2 \<le> length controlPoints" and "i < length controlPoints"
    and "weight (controlPoints ! i) = Fin 0"
    and "is_fin (px (controlPoints ! i))" and "is_fin (py (controlPoints ! i))"
  shows "deCasteljauBezier (controlPoints[i := cp a b 0]) t = deCasteljauBezier controlPoints t"
proof -
  have "homog (cp a b 0) = homog (controlPoints ! i)"
    using assms(3-5) by (simp add: homog_zero_weight homog_cp)
  then have "map homog (controlPoints[i := cp a b 0]) = map homog controlPoints"
    using assms(2) by (simp add: map_update list_update_same_conv)
  moreover have "length controlPoints \<noteq> 0" "length controlPoints \<noteq> 1"
    using assms(1) by linarith+
  ultimately show ?thesis by (simp add: deCasteljauBezier_def)
qed

lemma reduce_step_zero_points:
  assumes "\<forall>p\<in>set ps. p = cp 0 0 0"
  shows "reduce_step (Fin t) ps = replicate (length ps - 1) (cp 0 0 0)"
proof (rule nth_equalityI)
  show "length (reduce_step (Fin t) ps) = length (replicate (length ps - 1) (cp 0 0 0))" by simp
next
  fix i assume "i < length (reduce_step (Fin t) ps)"
  then have i: "i + 1 < length ps" by simp
  then have "ps ! i = cp 0 0 0" "ps ! (i + 1) = cp 0 0 0" using assms by simp_all
  then show "reduce_step (Fin t) ps ! i = replicate (length ps - 1) (cp 0 0 0) ! i"
    using i by (simp add: nth_reduce_step lerp_cp)
qed

lemma reduce_zero_points: "reduce (Fin t) (replicate (Suc k) (cp 0 0 0)) = [cp 0 0 0]"
proof (induction k)
  case 0
  show ?case by simp
next
  case (Suc k)
  have "reduce (Fin t) (replicate (Suc (Suc k)) (cp 0 0 0))
        = reduce (Fin t) (reduce_step (Fin t) (replicate (Suc (Suc k)) (cp 0 0 0)))"
    by simp
  also have "reduce_step (Fin t) (replicate (Suc (Suc k)) (cp 0 0 0)) = replicate (Suc k) (cp 0 0 0)"
    by (subst reduce_step_zero_points) simp_all
  finally show ?case using Suc.IH by simp
qed

lemma deCasteljauBezier_all_zero_weights:
  assumes "2 \<le> length points"
    and "\<forall>p\<in>set points. is_fin (px p) \<and> is_fin (py p) \<and> weight p = Fin 0"
  shows "deCasteljauBezier points (Fin t) = Some \<lparr>px = Fin 0, py = Fin 0\<rparr>"
proof -
  have "map homog points = replicate (length points) (cp 0 0 0)"
  proof (rule nth_equalityI)
    show "length (map homog points) = length (replicate (length points) (cp 0 0 0))" by simp
  next
    fix i assume "i < length (map homog points)"
    then have i: "i < length points" by simp
    then have "homog (points ! i) = cp 0 0 0"
      using assms(2) by (simp add: homog_zero_weight)
    then show "map homog points ! i = replicate (length points) (cp 0 0 0) ! i"
      using i by simp
  qed
  moreover obtain k where "length points = Suc k" using assms(1) by (cases "length points") simp_all
  moreover have "length points \<noteq> 0" "length points \<noteq> 1" using assms(1) by linarith+
  ultimately show ?thesis
    by (simp add: deCasteljauBezier_def reduce_zero_points Let_def del: replicate_Suc)
       (simp add: cp_def nneq_def)
qed

section \<open>Scaling all weights\<close>












section \<open>Partition of unity in exact arithmetic\<close>

text \<open>
  With exact quotients, products and sums, the basis functions on the generated knot
  vector sum to 1 at every parameter with \<^verbatim>\<open>knots[degree] <= t < knots[n]\<close>. The numbers
  of the source are double-precision: there each operation of the recursion is rounded
  and the computed sum is 1 only up to that rounding.
\<close>

lemma partition_of_unity_exact:
  assumes "degree + 1 \<le> n"
    and "knots = generateUniformKnots n degree"
    and "nle (knots ! degree) t"
    and "nlt t (knots ! n)"
  shows "nsum (map (\<lambda>i. basisFunction i (degree + 1) t knots) [0..<n]) = Fin 1"
proof -
  have lo: "knots ! degree = Fin 0" and hi: "knots ! n = Fin 1"
    using assms(1) by (simp_all add: assms(2) nth_generateUniformKnots rknot_def)
  obtain r where t: "t = Fin r" using assms(3,4) by (cases t) (simp_all add: lo hi)
  have r: "0 \<le> r" "r < 1" using assms(3,4) by (simp_all add: lo hi t)
  let ?u = "rknot n degree"
  have m: "map (\<lambda>i. basisFunction i (degree + 1) t knots) [0..<n]
          = map (\<lambda>i. Fin (rbasis ?u i (degree + 1) r)) [0..<n]"
  proof (rule map_cong)
    fix i assume "i \<in> set [0..<n]"
    then have "i < n" by simp
    then show "basisFunction i (degree + 1) t knots = Fin (rbasis ?u i (degree + 1) r)"
      unfolding t assms(2) by (rule basisFunction_generated [OF assms(1)])
  qed (rule refl)
  have s: "(\<Sum>i = 0..<n. rbasis ?u i (Suc degree) r) = 1"
  proof (rule rbasis_partition [OF mono_rknot [OF assms(1)]])
    show "degree < n" using assms(1) by simp
    show "?u degree \<le> r" using r by (simp add: rknot_def)
    show "r < ?u n" using r assms(1) by (simp add: rknot_def)
    show "0 + degree = degree" by simp
  qed
  show ?thesis using s by (simp only: m nsum_Fin) simp
qed

section \<open>Claims\<close>

text \<open>
  C8 (as stated): for every control-point sequence of length at least 2,
  \<^verbatim>\<open>generateBezierCurve(points, 0)\<close> returns a single point, the evaluation at \<^verbatim>\<open>t = 0\<close>,
  the division by zero in \<^verbatim>\<open>t = i/steps\<close> being guarded. The source has no such guard:
  the one sample is taken at \<^verbatim>\<open>0/0 = NaN\<close>. For the segment from \<open>(0,0)\<close> to \<open>(1,1)\<close>
  the returned point is not the start point.
\<close>

theorem generateBezierCurve_zero_steps_counterexample:
  "generateBezierCurve [cp 0 0 1, cp 1 1 1] 0
     \<noteq> [the (deCasteljauBezier [cp 0 0 1, cp 1 1 1] (Fin 0))]"
  by (simp add: generateBezierCurve_def List.map_filter_def deCasteljauBezier_def
      reduce_step_def homog_def lerp_def cp_def nsub_def nneq_def)

text \<open>
  C8 (amended): for every control-point sequence of length at least 2,
  \<^verbatim>\<open>generateBezierCurve(points, 0)\<close> returns a single point, and both coordinates of that
  point are \<^verbatim>\<open>NaN\<close>.
\<close>

theorem generateBezierCurve_zero_steps:
  "2 \<le> length controlPoints \<Longrightarrow>
     generateBezierCurve controlPoints 0 = [\<lparr>px = NaN, py = NaN\<rparr>]"
  by (simp add: generateBezierCurve_def List.map_filter_def deCasteljauBezier_NaN)

theorem generateBezierCurve_zero_steps_witness:
  "2 \<le> length [cp 0 0 1, cp 1 1 1] \<and>
     generateBezierCurve [cp 0 0 1, cp 1 1 1] 0 = [\<lparr>px = NaN, py = NaN\<rparr>]"
  using generateBezierCurve_zero_steps [of "[cp 0 0 1, cp 1 1 1]"] by simp

text \<open>
  C9: too few points give a sentinel. \<^verbatim>\<open>generateBezierCurve\<close> on fewer than 2 points and
  \<^verbatim>\<open>generateBSplineCurve\<close> on fewer than \<^verbatim>\<open>degree + 1\<close> points return the empty curve;
  \<^verbatim>\<open>deCasteljauBezier\<close> on the empty sequence and \<^verbatim>\<open>bSplinePoint\<close> on fewer than
  \<^verbatim>\<open>degree + 1\<close> points return \<^verbatim>\<open>null\<close>. Each of these branches returns before any
  array is read, so nothing can throw.
\<close>

theorem too_few_points_sentinels:
  "(length controlPoints < 2 \<longrightarrow> generateBezierCurve controlPoints steps = []) \<and>
   (length controlPoints < degree + 1 \<longrightarrow>
      generateBSplineCurve controlPoints degree steps knots = []) \<and>
   deCasteljauBezier [] t = None \<and>
   (length controlPoints < degree + 1 \<longrightarrow> bSplinePoint controlPoints t degree knots = None)"
  by (simp add: generateBezierCurve_def generateBSplineCurve_def deCasteljauBezier_def
      bSplinePoint_def Let_def)

theorem too_few_points_sentinels_witness:
  "generateBezierCurve [cp 3 4 1] 100 = [] \<and>
   generateBSplineCurve [cp 3 4 1] 3 100 None = [] \<and>
   deCasteljauBezier [] (Fin (1/2)) = None \<and>
   bSplinePoint [cp 3 4 1] (Fin (1/2)) 3 None = None"
  using too_few_points_sentinels [where controlPoints = "[cp 3 4 1]" and degree = 3
      and steps = 100 and knots = None and t = "Fin (1/2)"] by simp

text \<open>
  C2: for every sequence of at least 2 finite control points whose weights are all 1,
  \<^verbatim>\<open>deCasteljauBezier(points, 0)\<close> is exactly the \<^verbatim>\<open>(x, y)\<close> of the first point and
  \<^verbatim>\<open>deCasteljauBezier(points, 1)\<close> exactly that of the last point.
\<close>

theorem bezier_endpoints:
  assumes "2 \<le> length points"
    and "\<forall>p\<in>set points. finite_cp p \<and> weight p = Fin 1"
  shows "deCasteljauBezier points (Fin 0) = Some \<lparr>px = px (points ! 0), py = py (points ! 0)\<rparr>
       \<and> deCasteljauBezier points (Fin 1) = Some \<lparr>px = px (last points), py = py (last points)\<rparr>"
proof -
  have ne: "points \<noteq> []" using assms(1) by (cases points) simp_all
  have lift: "map homog points = points"
    using assms(2) by (simp add: map_idI homog_unit_weight)
  have fin: "\<forall>p\<in>set points. finite_cp p" using assms(2) by simp
  have first: "finite_cp (hd points)" "weight (hd points) = Fin 1"
    using assms(2) ne by simp_all
  have lst: "finite_cp (last points)" "weight (last points) = Fin 1"
    using assms(2) ne by simp_all
  have len: "length points \<noteq> 0" "length points \<noteq> 1" using assms(1) by linarith+
  have "deCasteljauBezier points (Fin 0) = Some \<lparr>px = px (hd points), py = py (hd points)\<rparr>"
    using first len
    by (simp add: deCasteljauBezier_def Let_def lift reduce_zero [OF fin ne] nneq_def ndiv_one
        finite_cp_def)
  moreover have "deCasteljauBezier points (Fin 1)
                   = Some \<lparr>px = px (last points), py = py (last points)\<rparr>"
    using lst len
    by (simp add: deCasteljauBezier_def Let_def lift reduce_one [OF fin ne] nneq_def ndiv_one
        finite_cp_def)
  ultimately show ?thesis using ne by (simp add: hd_conv_nth)
qed

theorem bezier_endpoints_witness:
  "2 \<le> length [cp 1 2 1, cp 5 7 1, cp 3 4 1]
   \<and> deCasteljauBezier [cp 1 2 1, cp 5 7 1, cp 3 4 1] (Fin 0) = Some \<lparr>px = Fin 1, py = Fin 2\<rparr>
   \<and> deCasteljauBezier [cp 1 2 1, cp 5 7 1, cp 3 4 1] (Fin 1) = Some \<lparr>px = Fin 3, py = Fin 4\<rparr>"
  using bezier_endpoints [of "[cp 1 2 1, cp 5 7 1, cp 3 4 1]"]
  by (simp add: finite_cp_def cp_def)




text \<open>
  C5: for \<open>n \<ge> degree + 1\<close>, \<^verbatim>\<open>generateUniformKnots(n, degree)\<close> has length
  \<open>n + degree + 1\<close> and consists of \<open>degree + 1\<close> zeros, then the interior knots
  \<open>i / (n - degree)\<close> for \<open>i = 1, \<dots>, n - degree - 1\<close> in increasing order, then
  \<open>degree + 1\<close> ones; \<^verbatim>\<open>generateUniformKnots(5, 3)\<close> is \<^verbatim>\<open>[0, 0, 0, 0, 0.5, 1, 1, 1, 1]\<close>.
\<close>

theorem generateUniformKnots_shape:
  assumes "degree + 1 \<le> n"
  shows "length (generateUniformKnots n degree) = n + degree + 1
       \<and> generateUniformKnots n degree
           = replicate (degree + 1) (Fin 0)
             @ map (\<lambda>i. Fin (real i / real (n - degree))) [1..<n - degree]
             @ replicate (degree + 1) (Fin 1)
       \<and> sorted_wrt nlt (map (\<lambda>i. Fin (real i / real (n - degree))) [1..<n - degree])
       \<and> generateUniformKnots 5 3
           = [Fin 0, Fin 0, Fin 0, Fin 0, Fin (1/2), Fin 1, Fin 1, Fin 1, Fin 1]"
proof -
  have pos: "0 < real (n - degree)" using assms by simp
  have "sorted_wrt (<) [1..<n - degree]" by simp
  then have "sorted_wrt (\<lambda>i j. nlt (Fin (real i / real (n - degree)))
                                   (Fin (real j / real (n - degree)))) [1..<n - degree]"
    by (rule sorted_wrt_mono_rel [rotated]) (simp add: pos divide_strict_right_mono)
  then have inc: "sorted_wrt nlt (map (\<lambda>i. Fin (real i / real (n - degree))) [1..<n - degree])"
    by (simp only: sorted_wrt_map)
  have ex: "generateUniformKnots 5 3
              = [Fin 0, Fin 0, Fin 0, Fin 0, Fin (1/2), Fin 1, Fin 1, Fin 1, Fin 1]"
    by (simp add: generateUniformKnots_def Let_def numeral_eq_Suc upt_rec)
  show ?thesis
    using length_generateUniformKnots [OF assms] generateUniformKnots_finite [OF assms] inc ex
    by (intro conjI)
qed

theorem generateUniformKnots_shape_witness:
  "2 + 1 \<le> (6::nat)
   \<and> length (generateUniformKnots 6 2) = 9
   \<and> generateUniformKnots 6 2
       = [Fin 0, Fin 0, Fin 0, Fin (1/4), Fin (1/2), Fin (3/4), Fin 1, Fin 1, Fin 1]"
proof -
  have "2 + 1 \<le> (6::nat)" by simp
  from generateUniformKnots_shape [OF this] show ?thesis
    by (simp add: numeral_eq_Suc upt_rec)
qed

text \<open>
  C6: for \<open>n \<ge> degree + 1\<close> and the generated knot vector, at the last knot value
  \<^verbatim>\<open>t = knots[n]\<close>, which is 1, every \<^verbatim>\<open>basisFunction(i, degree + 1, t, knots)\<close> for
  \<open>i = 0, \<dots>, n - 1\<close> is 0, so the basis functions sum to 0 there.
\<close>

theorem basis_functions_vanish_at_last_knot:
  assumes "degree + 1 \<le> n"
    and "knots = generateUniformKnots n degree"
  shows "knots ! n = Fin 1
       \<and> (\<forall>i<n. basisFunction i (degree + 1) (knots ! n) knots = Fin 0)
       \<and> nsum (map (\<lambda>i. basisFunction i (degree + 1) (knots ! n) knots) [0..<n]) = Fin 0"
proof -
  have hi: "knots ! n = Fin 1"
    using assms(1) by (simp add: assms(2) nth_generateUniformKnots rknot_def)
  have z: "\<forall>i<n. basisFunction i (degree + 1) (knots ! n) knots = Fin 0"
    unfolding hi unfolding assms(2) using basisFunction_last_knot [OF assms(1)] by blast
  have "map (\<lambda>i. basisFunction i (degree + 1) (knots ! n) knots) [0..<n]
          = map (\<lambda>i. Fin ((\<lambda>_. 0) i)) [0..<n]"
    using z by (intro map_cong refl) simp
  then have "nsum (map (\<lambda>i. basisFunction i (degree + 1) (knots ! n) knots) [0..<n]) = Fin 0"
    by (simp only: nsum_Fin) simp
  then show ?thesis using hi z by (intro conjI)
qed

theorem basis_functions_vanish_at_last_knot_witness:
  "3 + 1 \<le> (5::nat)
   \<and> generateUniformKnots 5 3 ! 5 = Fin 1
   \<and> basisFunction 4 (3 + 1) (generateUniformKnots 5 3 ! 5) (generateUniformKnots 5 3) = Fin 0
   \<and> nsum (map (\<lambda>i. basisFunction i (3 + 1) (generateUniformKnots 5 3 ! 5)
                       (generateUniformKnots 5 3)) [0..<5]) = Fin 0"
proof -
  have h: "3 + 1 \<le> (5::nat)" by simp
  note r = basis_functions_vanish_at_last_knot [OF h refl]
  have "(4::nat) < 5" by simp
  with r have "basisFunction 4 (3 + 1) (generateUniformKnots 5 3 ! 5) (generateUniformKnots 5 3)
                 = Fin 0"
    by blast
  with h r show ?thesis by blast
qed

text \<open>
  C7: for at least \<open>degree + 1\<close> finite control points, \<open>steps \<ge> 1\<close> and the generated
  knot vector, \<^verbatim>\<open>generateBSplineCurve(points, degree, steps)\<close> has \<open>steps + 1\<close> points and
  its last point is exactly \<^verbatim>\<open>{x: 0, y: 0}\<close>: the last sample is taken at the last knot,
  where every basis function is 0, and \<^verbatim>\<open>bSplinePoint\<close> then returns the raw sums.
\<close>

theorem generateBSplineCurve_last_point:
  assumes "degree + 1 \<le> length points"
    and "1 \<le> steps"
    and "\<forall>p\<in>set points. finite_cp p"
  shows "length (generateBSplineCurve points degree steps None) = steps + 1
       \<and> last (generateBSplineCurve points degree steps None) = \<lparr>px = Fin 0, py = Fin 0\<rparr>"
proof -
  let ?ks = "generateUniformKnots (length points) degree"
  let ?f = "\<lambda>i. bSplinePoint points
                   (nadd (Fin 0) (nmul (ndiv (Fin (real i)) (Fin (real steps)))
                                       (nsub (Fin 1) (Fin 0))))
                   degree (Some ?ks)"
  have len: "\<not> length points < degree + 1" using assms(1) by linarith
  have curve: "generateBSplineCurve points degree steps None = map (\<lambda>i. the (?f i)) [0..<steps + 1]"
    unfolding generateBSplineCurve_def Let_def option.case
    using len
    by (simp only: if_False knot_at_generated [OF assms(1)] to_num.simps)
       (rule map_filter_all_Some, simp add: bSplinePoint_not_None [OF assms(1)])
  have "real steps \<noteq> 0" using assms(2) by simp
  then have "?f steps = bSplinePoint points (Fin 1) degree (Some ?ks)"
    by (simp add: nsub_def)
  then have "the (?f steps) = \<lparr>px = Fin 0, py = Fin 0\<rparr>"
    by (simp only: bSplinePoint_upper_boundary [OF assms(1,3)] option.sel)
  then show ?thesis by (simp add: curve del: upt_Suc) (simp add: last_map)
qed

theorem generateBSplineCurve_last_point_witness:
  "2 + 1 \<le> length [cp 1 1 1, cp 2 5 2, cp 4 5 1, cp 6 1 3]
   \<and> (1::nat) \<le> 4
   \<and> length (generateBSplineCurve [cp 1 1 1, cp 2 5 2, cp 4 5 1, cp 6 1 3] 2 4 None) = 4 + 1
   \<and> last (generateBSplineCurve [cp 1 1 1, cp 2 5 2, cp 4 5 1, cp 6 1 3] 2 4 None)
       = \<lparr>px = Fin 0, py = Fin 0\<rparr>"
proof -
  have h1: "2 + 1 \<le> length [cp 1 1 1, cp 2 5 2, cp 4 5 1, cp 6 1 3]" by simp
  have h2: "(1::nat) \<le> 4" by simp
  have h3: "\<forall>p\<in>set [cp 1 1 1, cp 2 5 2, cp 4 5 1, cp 6 1 3]. finite_cp p"
    by (simp add: finite_cp_def cp_def)
  show ?thesis using h1 h2 generateBSplineCurve_last_point [OF h1 h2 h3] by (intro conjI) simp_all
qed

text \<open>
  C10 (as stated): for every sequence containing a point of weight 0, \<^verbatim>\<open>bSplinePoint\<close>
  blends that point as if its weight were 1 while \<^verbatim>\<open>deCasteljauBezier\<close> gives it zero
  homogeneous contribution. On a one-point sequence \<^verbatim>\<open>deCasteljauBezier\<close> returns the
  point before any weight is read: the result changes with the coordinates of the
  zero-weight point \<open>(7, 9)\<close>, and it is the point \<^verbatim>\<open>bSplinePoint\<close> returns for degree 0.
\<close>

theorem zero_weight_single_point_counterexample:
  "deCasteljauBezier ([cp 7 9 0][0 := cp 3 4 0]) (Fin (1/2))
     \<noteq> deCasteljauBezier [cp 7 9 0] (Fin (1/2))
   \<and> deCasteljauBezier [cp 7 9 0] (Fin (1/2)) = bSplinePoint [cp 7 9 0] (Fin (1/2)) 0 None"
  by code_simp

text \<open>
  C10 (amended): the two evaluators treat a zero weight differently on sequences of at
  least 2 points. \<^verbatim>\<open>bSplinePoint\<close> evaluates every sequence as if each falsy weight (0 or
  \<^verbatim>\<open>NaN\<close>, which is also how a missing weight behaves) were 1. \<^verbatim>\<open>deCasteljauBezier\<close> on
  at least 2 points multiplies by the stored weight: a point of weight 0 contributes
  nothing, so its finite coordinates can be replaced by any others without changing the
  result, and when every weight is 0 the result is \<open>(0, 0)\<close>; on a single point it
  returns that point whatever its weight. On \<open>(2,3)\<close> of weight 1 and \<open>(7,9)\<close> of
  weight 0 at \<open>t = 1/2\<close> the B\'ezier point is \<open>(2, 3)\<close> and the B-Spline point of degree 1
  is \<open>(9/2, 6)\<close>; on \<open>(0,0)\<close> of weight 1 and \<open>(4,8)\<close> the B\'ezier point at \<open>t = 1/2\<close> is
  \<open>(3, 6)\<close> for the weight 3 and \<open>(2, 4)\<close> for the weight 1.
\<close>

theorem zero_weight_handling:
  "bSplinePoint (map weight_or_one points) t degree knots = bSplinePoint points t degree knots
   \<and> (2 \<le> length points \<and> i < length points \<and> weight (points ! i) = Fin 0
        \<and> is_fin (px (points ! i)) \<and> is_fin (py (points ! i))
      \<longrightarrow> deCasteljauBezier (points[i := cp a b 0]) t = deCasteljauBezier points t)
   \<and> (2 \<le> length points
        \<and> (\<forall>p\<in>set points. is_fin (px p) \<and> is_fin (py p) \<and> weight p = Fin 0)
      \<longrightarrow> deCasteljauBezier points (Fin r) = Some \<lparr>px = Fin 0, py = Fin 0\<rparr>)
   \<and> deCasteljauBezier [p] t = Some \<lparr>px = px p, py = py p\<rparr>
   \<and> deCasteljauBezier [cp 2 3 1, cp 7 9 0] (Fin (1/2)) = Some \<lparr>px = Fin 2, py = Fin 3\<rparr>
   \<and> bSplinePoint [cp 2 3 1, cp 7 9 0] (Fin (1/2)) 1 None = Some \<lparr>px = Fin (9/2), py = Fin 6\<rparr>
   \<and> deCasteljauBezier [cp 0 0 1, cp 4 8 3] (Fin (1/2)) = Some \<lparr>px = Fin 3, py = Fin 6\<rparr>
   \<and> deCasteljauBezier [cp 0 0 1, cp 4 8 1] (Fin (1/2)) = Some \<lparr>px = Fin 2, py = Fin 4\<rparr>"
proof -
  have one: "deCasteljauBezier [p] t = Some \<lparr>px = px p, py = py p\<rparr>"
    by (simp add: deCasteljauBezier_def)
  have b1: "deCasteljauBezier [cp 2 3 1, cp 7 9 0] (Fin (1/2)) = Some \<lparr>px = Fin 2, py = Fin 3\<rparr>"
    by code_simp
  have s1: "bSplinePoint [cp 2 3 1, cp 7 9 0] (Fin (1/2)) 1 None
              = Some \<lparr>px = Fin (9/2), py = Fin 6\<rparr>"
    by code_simp
  have b2: "deCasteljauBezier [cp 0 0 1, cp 4 8 3] (Fin (1/2)) = Some \<lparr>px = Fin 3, py = Fin 6\<rparr>"
    by code_simp
  have b3: "deCasteljauBezier [cp 0 0 1, cp 4 8 1] (Fin (1/2)) = Some \<lparr>px = Fin 2, py = Fin 4\<rparr>"
    by code_simp
  show ?thesis
    using bSplinePoint_weight_or_one deCasteljauBezier_zero_weight
      deCasteljauBezier_all_zero_weights one b1 s1 b2 b3
    by (intro conjI impI) blast+
qed

theorem zero_weight_handling_witness:
  "2 \<le> length [cp 2 3 1, cp 7 9 0] \<and> 1 < length [cp 2 3 1, cp 7 9 0]
   \<and> weight ([cp 2 3 1, cp 7 9 0] ! 1) = Fin 0
   \<and> is_fin (px ([cp 2 3 1, cp 7 9 0] ! 1)) \<and> is_fin (py ([cp 2 3 1, cp 7 9 0] ! 1))
   \<and> deCasteljauBezier ([cp 2 3 1, cp 7 9 0][1 := cp 3 4 0]) (Fin (1/2))
       = deCasteljauBezier [cp 2 3 1, cp 7 9 0] (Fin (1/2))
   \<and> bSplinePoint (map weight_or_one [cp 2 3 1, cp 7 9 0]) (Fin (1/2)) 1 None
       = bSplinePoint [cp 2 3 1, cp 7 9 0] (Fin (1/2)) 1 None"
  using zero_weight_handling [where points = "[cp 2 3 1, cp 7 9 0]" and i = 1 and a = 3 and b = 4
      and t = "Fin (1/2)" and degree = 1 and knots = None]
  by (simp add: cp_def)




end
